theory Spec2Isabelle
  imports Complex_Main "HOL-Library.Multiset" "HOL-Library.Sublist" "HOL-Library.Log_Nat"
begin

section \<open>Data model\<close>

subsection \<open>JavaScript numbers\<close>

text \<open>
  A JavaScript number is an IEEE 754 binary64 value: a finite one, an infinity or NaN. A
  finite one is given by the real number that it is (zero has one sign here: \<^verbatim>\<open>===\<close> does
  not tell \<^verbatim>\<open>-0\<close> from \<^verbatim>\<open>0\<close>).
\<close>

datatype number = Finite real | PosInfinity | NegInfinity | NaN

definition pow2 :: "int \<Rightarrow> real" where
  "pow2 k = (if 0 \<le> k then 2 ^ nat k else 1 / 2 ^ nat (- k))"

definition floor_log2 :: "real \<Rightarrow> int" where
  \<comment> \<open>for \<open>0 < a\<close>: the exponent \<open>e\<close> with \<open>pow2 e \<le> a < pow2 (e + 1)\<close>\<close>
  "floor_log2 a =
     (if 1 \<le> a then bitlen \<lfloor>a\<rfloor> - 1
      else let k = bitlen \<lfloor>1 / a\<rfloor> - 1 in if a * 2 ^ nat k = 1 then - k else - k - 1)"

definition round_half_even :: "real \<Rightarrow> int" where
  \<comment> \<open>the nearest integer; of two nearest ones, the even one\<close>
  "round_half_even r =
     (let f = \<lfloor>r\<rfloor>; d = r - of_int f
      in if d < 1 / 2 then f else if 1 / 2 < d then f + 1 else if even f then f else f + 1)"

definition binary64 :: "real \<Rightarrow> number" where
  \<comment> \<open>the number nearest to \<open>x\<close> (round to nearest, ties to even): 53 significant bits,
      the spacing \<open>pow2 (- 1074)\<close> below \<open>pow2 (- 1022)\<close>, an infinity when the rounded value
      reaches \<open>pow2 1024\<close>\<close>
  "binary64 x =
     (if x = 0 then Finite 0
      else let e = floor_log2 \<bar>x\<bar>;
               q = max e (- 1022) - 52;
               n = round_half_even (\<bar>x\<bar> / pow2 q)
           in if 971 < q \<or> (q = 971 \<and> n = 2 ^ 53)
              then (if 0 < x then PosInfinity else NegInfinity)
              else Finite ((if 0 < x then 1 else - 1) * of_int n * pow2 q))"

fun Number_minus :: "number \<Rightarrow> number \<Rightarrow> number" where
  \<comment> \<open>the operator \<^verbatim>\<open>-\<close> on numbers: the exact difference of two finite numbers, rounded\<close>
  "Number_minus NaN _ = NaN"
| "Number_minus _ NaN = NaN"
| "Number_minus PosInfinity PosInfinity = NaN"
| "Number_minus NegInfinity NegInfinity = NaN"
| "Number_minus PosInfinity _ = PosInfinity"
| "Number_minus NegInfinity _ = NegInfinity"
| "Number_minus _ PosInfinity = NegInfinity"
| "Number_minus _ NegInfinity = PosInfinity"
| "Number_minus (Finite a) (Finite b) = binary64 (a - b)"

subsection \<open>Records\<close>

text \<open>
  Modelled from the spec: the declarations of \<^verbatim>\<open>Clan\<close> and \<^verbatim>\<open>TrackedClan\<close> live in
  \<^verbatim>\<open>src/types.ts\<close>, which is not among the sources. A Record is
  \<^verbatim>\<open>{ name: string, score: number }\<close>, a Tracked Record adds \<^verbatim>\<open>pointChange: number\<close>.
  The application reads and writes exactly these fields. A score is a number that
  \<^verbatim>\<open>JSON.parse\<close> has read, so it is not NaN. It is given by a real number: a finite number
  by the binary64 value that it is, \<^verbatim>\<open>Infinity\<close> and \<^verbatim>\<open>-Infinity\<close> (which \<^verbatim>\<open>JSON.parse\<close>
  returns for a literal beyond the range) by \<open>2 ^ 1024\<close> and \<open>- (2 ^ 1024)\<close>, which round
  to them. The order of the scores is then the order of these reals, and
  \<open>binary64\<close> takes the real to the number that takes part in arithmetic: it leaves a
  binary64 value as it is. A point change is the result of a subtraction and can be any
  number.
\<close>

record Clan =
  name :: string
  score :: real

record TrackedClan = Clan +
  pointChange :: number

subsection \<open>The JavaScript Map\<close>

text \<open>
  A \<^verbatim>\<open>Map<K, V>\<close> remembers the order in which its keys were first inserted, and
  \<^verbatim>\<open>values()\<close> iterates in that order. It is modelled as an association list in insertion
  order: \<^verbatim>\<open>set\<close> on a key that is present replaces the value in place, on a new key it
  appends the entry.
\<close>

type_synonym ('k, 'v) Map = "('k \<times> 'v) list"

definition Map_has :: "('k, 'v) Map \<Rightarrow> 'k \<Rightarrow> bool" where
  "Map_has m k = (k \<in> set (map fst m))"

definition Map_get :: "('k, 'v) Map \<Rightarrow> 'k \<Rightarrow> 'v option" where
  "Map_get m k = map_of m k"

fun Map_set :: "('k, 'v) Map \<Rightarrow> 'k \<Rightarrow> 'v \<Rightarrow> ('k, 'v) Map" where
  "Map_set [] k v = [(k, v)]"
| "Map_set ((k', v') # m) k v =
     (if k' = k then (k, v) # m else (k', v') # Map_set m k v)"

definition Map_values :: "('k, 'v) Map \<Rightarrow> 'v list" where
  "Map_values m = map snd m"

definition Map_new :: "('k \<times> 'v) list \<Rightarrow> ('k, 'v) Map" where
  \<comment> \<open>\<^verbatim>\<open>new Map(entries)\<close>: the entries are set one after the other\<close>
  "Map_new entries = fold (\<lambda>(k, v) m. Map_set m k v) entries []"

section \<open>The pipeline of \<^verbatim>\<open>fetchData\<close>\<close>

subsection \<open>De-duplication (lines 158 to 165)\<close>

definition uniqueClansMap_step :: "Clan \<Rightarrow> (string, Clan) Map \<Rightarrow> (string, Clan) Map" where
  \<comment> \<open>the body of the \<^verbatim>\<open>for (const clan of newClansData)\<close> loop\<close>
  "uniqueClansMap_step clan uniqueClansMap =
     (if \<not> Map_has uniqueClansMap (name clan)
      then Map_set uniqueClansMap (name clan) clan
      else uniqueClansMap)"

definition uniqueClansMap_of :: "Clan list \<Rightarrow> (string, Clan) Map" where
  "uniqueClansMap_of newClansData = fold uniqueClansMap_step newClansData []"

definition uniqueClans_of :: "Clan list \<Rightarrow> Clan list" where
  \<comment> \<open>\<^verbatim>\<open>Array.from(uniqueClansMap.values())\<close>\<close>
  "uniqueClans_of newClansData = Map_values (uniqueClansMap_of newClansData)"

subsection \<open>Point changes (lines 167 to 173)\<close>

definition withPointChange :: "(string, Clan) Map \<Rightarrow> Clan \<Rightarrow> TrackedClan" where
  \<comment> \<open>the arrow function given to \<^verbatim>\<open>uniqueClans.map\<close>; an object is truthy, \<^verbatim>\<open>undefined\<close> is not\<close>
  "withPointChange previousClansMap clan =
     (let previousClan = Map_get previousClansMap (name clan);
          pointChange = (case previousClan of
                           Some p \<Rightarrow> Number_minus (binary64 (score clan)) (binary64 (score p))
                         | None \<Rightarrow> Finite 0)
      in \<lparr>name = name clan, score = score clan, pointChange = pointChange\<rparr>)"

definition trackedClans_of :: "(string, Clan) Map \<Rightarrow> Clan list \<Rightarrow> TrackedClan list" where
  "trackedClans_of previousClansMap uniqueClans =
     map (withPointChange previousClansMap) uniqueClans"

subsection \<open>Ranking (line 176)\<close>

text \<open>
  \<^verbatim>\<open>Array.prototype.sort(comparefn)\<close> is a stable sort (ECMAScript 2019): an element
  \<open>x\<close> goes before \<open>y\<close> when \<^verbatim>\<open>comparefn(x, y) < 0\<close>, after it when the result is
  positive, and the two keep their order when it is zero. The model inserts the elements from
  the right, each one in front of the first element that it does not have to follow.
\<close>

fun Array_sort_insert :: "('a \<Rightarrow> 'a \<Rightarrow> real) \<Rightarrow> 'a \<Rightarrow> 'a list \<Rightarrow> 'a list" where
  "Array_sort_insert comparefn x [] = [x]"
| "Array_sort_insert comparefn x (y # ys) =
     (if comparefn x y \<le> 0 then x # y # ys
      else y # Array_sort_insert comparefn x ys)"

definition Array_sort :: "('a \<Rightarrow> 'a \<Rightarrow> real) \<Rightarrow> 'a list \<Rightarrow> 'a list" where
  "Array_sort comparefn xs = foldr (Array_sort_insert comparefn) xs []"

definition byScoreDescending :: "TrackedClan \<Rightarrow> TrackedClan \<Rightarrow> real" where
  \<comment> \<open>\<^verbatim>\<open>(a, b) => b.score - a.score\<close>; the sort uses the sign only and takes NaN for zero, and
      the difference of two scores has the sign of the difference of their reals (the
      difference of two binary64 values never rounds to zero)\<close>
  "byScoreDescending a b = score b - score a"

definition sortedData_of :: "TrackedClan list \<Rightarrow> TrackedClan list" where
  "sortedData_of trackedClans = Array_sort byScoreDescending trackedClans"

section \<open>One run of \<^verbatim>\<open>fetchData\<close>\<close>

subsection \<open>What the outside world answers\<close>

text \<open>
  A value that is thrown (or a rejected promise) is either an \<^verbatim>\<open>Error\<close> object with its
  message, or anything else; the \<^verbatim>\<open>catch\<close> block tells the two apart with
  \<^verbatim>\<open>e instanceof Error\<close>.
\<close>

datatype thrown = Error string | NonError

record Response =
  ok :: bool
  status :: nat
  text_result :: "thrown + string"    \<comment> \<open>\<^verbatim>\<open>await response.text()\<close>\<close>

text \<open>
  The answers of one run, in the order in which \<^verbatim>\<open>fetchData\<close> asks for them. The text of
  the model response is \<^verbatim>\<open>undefined\<close> (\<open>None\<close>) or a string. \<^verbatim>\<open>JSON.parse\<close> is a
  built-in function, its result on the text of this run is part of the answers: it throws a
  \<^verbatim>\<open>SyntaxError\<close> or returns the value that the source types as \<^verbatim>\<open>Clan[]\<close>.
\<close>

record Env =
  fetch_result :: "thrown + Response"                \<comment> \<open>\<^verbatim>\<open>await fetch(API_URL, ...)\<close>\<close>
  generateContent_text :: "thrown + string option"   \<comment> \<open>\<^verbatim>\<open>(await ai.models.generateContent(...)).text\<close>\<close>
  JSON_parse_result :: "thrown + Clan list"          \<comment> \<open>\<^verbatim>\<open>JSON.parse(jsonString)\<close>\<close>
  new_Date :: nat                                    \<comment> \<open>\<^verbatim>\<open>new Date()\<close>\<close>

fun Number_toString :: "nat \<Rightarrow> string" where
  "Number_toString n =
     (if n < 10 then [''0123456789'' ! n]
      else Number_toString (n div 10) @ [''0123456789'' ! (n mod 10)])"

definition newClansData_of :: "Env \<Rightarrow> thrown + Clan list" where
  \<comment> \<open>lines 113 to 156: everything in the \<^verbatim>\<open>try\<close> block that can throw\<close>
  "newClansData_of env =
     (case fetch_result env of
        Inl e \<Rightarrow> Inl e
      | Inr response \<Rightarrow>
          if \<not> ok response
          then Inl (Error (''Network response was not ok. Status: '' @
                           Number_toString (status response)))
          else (case text_result response of
                  Inl e \<Rightarrow> Inl e
                | Inr responseText \<Rightarrow>
                    (case generateContent_text env of
                       Inl e \<Rightarrow> Inl e
                     | Inr jsonString \<Rightarrow>
                         if jsonString = None \<or> jsonString = Some []
                         then Inl (Error ''AI model returned an empty response.'')
                         else JSON_parse_result env)))"

subsection \<open>The state of the component\<close>

text \<open>
  The four \<^verbatim>\<open>useState\<close> values and the two \<^verbatim>\<open>useRef\<close> cells of \<^verbatim>\<open>App\<close>, and what
  the browser and React keep for it: the intervals of the window that are active (each with
  the \<^verbatim>\<open>fetchData\<close> closure it calls), the handle that \<^verbatim>\<open>setInterval\<close> returns next, the
  calls of \<^verbatim>\<open>fetchData\<close> that are waiting for the network, and the dependency with which
  the effect of lines 205 to 210 last ran. A \<^verbatim>\<open>fetchData\<close> closure is identified by the
  value of \<^verbatim>\<open>error\<close> that it captured: \<^verbatim>\<open>useCallback(..., [stopPolling, error])\<close> makes a
  new one exactly when \<^verbatim>\<open>error\<close> changes, \<^verbatim>\<open>stopPolling\<close> never changes.
\<close>

record App =
  clans :: "TrackedClan list"
  loading :: bool
  error :: "string option"
  lastUpdated :: "nat option"
  previousClansMap :: "(string, Clan) Map"
  intervalRef :: "nat option"
  timers :: "(nat \<times> string option) list"
  nextHandle :: nat
  inFlight :: "string option list"
  effectDep :: "string option"

definition stopPolling :: "App \<Rightarrow> App" where
  \<comment> \<open>lines 101 to 106; the handle 0 is not truthy\<close>
  "stopPolling st =
     (case intervalRef st of
        Some h \<Rightarrow>
          if h \<noteq> 0
          then st\<lparr>timers := filter (\<lambda>t. fst t \<noteq> h) (timers st), intervalRef := None\<rparr>
          else st
      | None \<Rightarrow> st)"

subsection \<open>The \<^verbatim>\<open>catch\<close> block (lines 186 to 199)\<close>

definition toLowerCase_char :: "char \<Rightarrow> char" where
  "toLowerCase_char c =
     (case map_of (zip ''ABCDEFGHIJKLMNOPQRSTUVWXYZ'' ''abcdefghijklmnopqrstuvwxyz'') c of
        Some l \<Rightarrow> l
      | None \<Rightarrow> c)"

definition toLowerCase :: "string \<Rightarrow> string" where
  \<comment> \<open>on the ASCII letters; messages are modelled as ASCII text\<close>
  "toLowerCase s = map toLowerCase_char s"

fun String_includes :: "string \<Rightarrow> string \<Rightarrow> bool" where
  "String_includes [] t = (t = [])"
| "String_includes (c # cs) t = (prefix t (c # cs) \<or> String_includes cs t)"

definition QUOTA_MESSAGE :: string where
  "QUOTA_MESSAGE =
     ''Daily Gemini API quota exceeded. Live updates have been paused. Please check back tomorrow.''"

definition KEY_MESSAGE :: string where
  "KEY_MESSAGE =
     ''Failed to process data: The Gemini API key is missing or invalid. Please ensure it is configured correctly.''"

definition errorMessage_of :: "thrown \<Rightarrow> string" where
  "errorMessage_of e = (case e of Error m \<Rightarrow> m | NonError \<Rightarrow> ''An unknown error occurred'')"

definition catch_block :: "thrown \<Rightarrow> App \<Rightarrow> App" where
  "catch_block e st =
     (let errorMessage = errorMessage_of e;
          lowerCaseError = toLowerCase errorMessage
      in if String_includes lowerCaseError ''quota''
         then stopPolling (st\<lparr>error := Some QUOTA_MESSAGE\<rparr>)
         else if String_includes lowerCaseError ''api key not valid''
         then stopPolling (st\<lparr>error := Some KEY_MESSAGE\<rparr>)
         else st\<lparr>error := Some (''Failed to process data with AI: '' @ errorMessage)\<rparr>)"

subsection \<open>\<^verbatim>\<open>fetchData\<close> (lines 108 to 203)\<close>

definition fetchData_begin :: "string option \<Rightarrow> App \<Rightarrow> App" where
  \<comment> \<open>the call up to its first \<^verbatim>\<open>await\<close>: \<^verbatim>\<open>setLoading(true)\<close>, then the run waits\<close>
  "fetchData_begin closure_error st =
     st\<lparr>loading := True, inFlight := inFlight st @ [closure_error]\<rparr>"

definition truthy :: "string option \<Rightarrow> bool" where
  \<comment> \<open>\<^verbatim>\<open>null\<close> and the empty string are not truthy\<close>
  "truthy s = (s \<noteq> None \<and> s \<noteq> Some [])"

definition fetchData_settle :: "string option \<Rightarrow> Env \<Rightarrow> App \<Rightarrow> App" where
  \<comment> \<open>the rest of the call, once the network has answered: nothing waits after line 149\<close>
  "fetchData_settle closure_error env st =
     (let st' =
        (case newClansData_of env of
           Inr newClansData \<Rightarrow>
             (let uniqueClans = uniqueClans_of newClansData;
                  trackedClans = trackedClans_of (previousClansMap st) uniqueClans;
                  sortedData = sortedData_of trackedClans
              in st\<lparr>error := (if truthy closure_error then None else error st),
                     clans := sortedData,
                     previousClansMap := Map_new (map (\<lambda>c. (name c, c)) uniqueClans),
                     lastUpdated := Some (new_Date env)\<rparr>)
         | Inl e \<Rightarrow> catch_block e st)
      in st'\<lparr>loading := False\<rparr>)"

section \<open>The polling effect (lines 205 to 210)\<close>

definition useEffect_body :: "App \<Rightarrow> App" where
  \<comment> \<open>\<^verbatim>\<open>fetchData(); intervalRef.current = window.setInterval(fetchData, ...)\<close>\<close>
  "useEffect_body st =
     (let st1 = fetchData_begin (error st) st;
          h = nextHandle st1
      in st1\<lparr>intervalRef := Some h,
              timers := timers st1 @ [(h, error st)],
              nextHandle := Suc h,
              effectDep := error st\<rparr>)"

definition render :: "App \<Rightarrow> App" where
  \<comment> \<open>after a state change: when \<^verbatim>\<open>fetchData\<close> is a new closure, the cleanup of the old effect
      (\<^verbatim>\<open>stopPolling\<close>) runs and then the effect runs again\<close>
  "render st = (if error st \<noteq> effectDep st then useEffect_body (stopPolling st) else st)"

definition initial :: App where
  "initial =
     \<lparr>clans = [], loading = True, error = None, lastUpdated = None,
      previousClansMap = [], intervalRef = None,
      timers = [], nextHandle = 1, inFlight = [], effectDep = None\<rparr>"

definition mount :: App where
  "mount = useEffect_body initial"

definition timer_fires :: "nat \<Rightarrow> App \<Rightarrow> App" where
  \<comment> \<open>the window calls the closure of an active interval\<close>
  "timer_fires h st =
     (case map_of (timers st) h of
        Some closure_error \<Rightarrow> render (fetchData_begin closure_error st)
      | None \<Rightarrow> st)"

definition fetchData_returns :: "nat \<Rightarrow> Env \<Rightarrow> App \<Rightarrow> App" where
  \<comment> \<open>the network answers the \<open>i\<close>-th waiting call, which runs to its end\<close>
  "fetchData_returns i env st =
     fetchData_settle (inFlight st ! i) env
       (st\<lparr>inFlight := take i (inFlight st) @ drop (Suc i) (inFlight st)\<rparr>)"

definition run_settles :: "nat \<Rightarrow> Env \<Rightarrow> App \<Rightarrow> App" where
  \<comment> \<open>a waiting call returns, then React renders the new state\<close>
  "run_settles i env st =
     (if i < length (inFlight st) then render (fetchData_returns i env st) else st)"

definition stopped :: "App \<Rightarrow> bool" where
  \<comment> \<open>no interval is active and no call is waiting: nothing is left that could run a tick\<close>
  "stopped st = (timers st = [] \<and> inFlight st = [])"

definition polling_invariant :: "App \<Rightarrow> bool" where
  \<comment> \<open>the only active interval is the one whose handle \<^verbatim>\<open>intervalRef\<close> holds, handles are
      positive, and an error message is never the empty string\<close>
  "polling_invariant st =
     (error st \<noteq> Some [] \<and> intervalRef st \<noteq> Some 0 \<and> nextHandle st \<noteq> 0 \<and>
      timers st = (case intervalRef st of None \<Rightarrow> [] | Some h \<Rightarrow> [(h, effectDep st)]))"

text \<open>The states that the mounted component can reach, runs overlapping or not.\<close>

inductive reachable :: "App \<Rightarrow> bool" where
  at_mount: "reachable mount"
| after_tick: "reachable st \<Longrightarrow> reachable (timer_fires h st)"
| after_run: "reachable st \<Longrightarrow> reachable (run_settles i env st)"

text \<open>
  The states that the mounted component reaches when runs do not overlap (the discipline the
  specification assumes): an interval fires only while no call is waiting, and the call that
  waits is the one that is answered.
\<close>

inductive sequential :: "App \<Rightarrow> bool" where
  mounted: "sequential mount"
| tick: "sequential st \<Longrightarrow> inFlight st = [] \<Longrightarrow> sequential (timer_fires h st)"
| settle: "sequential st \<Longrightarrow> sequential (run_settles 0 env st)"

section \<open>Concrete inputs\<close>

definition A100 :: Clan where "A100 = \<lparr>name = ''A'', score = 100\<rparr>"
definition A110 :: Clan where "A110 = \<lparr>name = ''A'', score = 110\<rparr>"
definition B90 :: Clan where "B90 = \<lparr>name = ''B'', score = 90\<rparr>"
definition C7 :: Clan where "C7 = \<lparr>name = ''C'', score = 7\<rparr>"

definition snapshot_AB :: "(string, Clan) Map" where
  \<comment> \<open>the previous snapshot \<^verbatim>\<open>{A:100, B:90}\<close>\<close>
  "snapshot_AB = [(''A'', A100), (''B'', B90)]"

definition page :: Response where
  \<comment> \<open>the leaderboard page arrives\<close>
  "page = \<lparr>ok = True, status = 200, text_result = Inr ''1. A 100 2. B 90''\<rparr>"

definition env_AB :: Env where
  \<comment> \<open>the extraction returns the records A and B\<close>
  \<open>env_AB =
     \<lparr>fetch_result = Inr page,
      generateContent_text =
        Inr (Some ''[{"name":"A","score":100},{"name":"B","score":90}]''),
      JSON_parse_result = Inr [A100, B90],
      new_Date = 1000\<rparr>\<close>

definition env_empty_list :: Env where
  \<comment> \<open>the extraction returns the text \<^verbatim>\<open>[]\<close>, which \<^verbatim>\<open>JSON.parse\<close> reads as the empty array\<close>
  "env_empty_list =
     \<lparr>fetch_result = Inr page,
      generateContent_text = Inr (Some ''[]''),
      JSON_parse_result = Inr [],
      new_Date = 11000\<rparr>"

definition env_undefined :: Env where
  \<comment> \<open>the model response has no text; \<^verbatim>\<open>JSON.parse\<close> is not reached\<close>
  "env_undefined =
     \<lparr>fetch_result = Inr page,
      generateContent_text = Inr None,
      JSON_parse_result = Inr [],
      new_Date = 11000\<rparr>"

definition env_throws :: "string \<Rightarrow> Env" where
  \<comment> \<open>\<^verbatim>\<open>generateContent\<close> rejects with an \<^verbatim>\<open>Error\<close> that has the given message\<close>
  "env_throws m =
     \<lparr>fetch_result = Inr page,
      generateContent_text = Inl (Error m),
      JSON_parse_result = Inr [],
      new_Date = 11000\<rparr>"

definition quota_text :: string where
  "quota_text = ''You exceeded your current quota, please check your plan and billing details.''"

definition key_text :: string where
  "key_text = ''API key not valid. Please pass a valid API key.''"

definition both_text :: string where
  "both_text = ''Quota project lookup failed: API key not valid.''"

definition published_AB :: App where
  \<comment> \<open>the first run has published A and B\<close>
  "published_AB = run_settles 0 env_AB mount"

definition ticking_AB :: App where
  \<comment> \<open>ten seconds later the interval fires and the next run waits\<close>
  "ticking_AB = timer_fires 1 published_AB"

definition overlapped :: App where
  \<comment> \<open>the interval fires while the first call still waits; the second call fails, the effect
      starts a third one, and the first call is still waiting\<close>
  "overlapped = run_settles 1 (env_throws ''Service unavailable'') (timer_fires 1 mount)"

section \<open>The Map model\<close>

lemma Map_set_fresh: "\<not> Map_has m k \<Longrightarrow> Map_set m k v = m @ [(k, v)]"
  by (induction m) (auto simp: Map_has_def)

lemma Map_get_None_iff: "Map_get m k = None \<longleftrightarrow> \<not> Map_has m k"
  by (simp add: Map_get_def Map_has_def map_of_eq_None_iff)

section \<open>The Deduplicator\<close>

lemma uniqueClansMap_step_eq:
  "uniqueClansMap_step clan m =
     (if name clan \<in> set (map fst m) then m else m @ [(name clan, clan)])"
  by (simp add: uniqueClansMap_step_def Map_set_fresh) (simp add: Map_has_def)

lemma uniqueClansMap_of_snoc:
  "uniqueClansMap_of (xs @ [x]) = uniqueClansMap_step x (uniqueClansMap_of xs)"
  by (simp add: uniqueClansMap_of_def)

lemma uniqueClans_of_Nil: "uniqueClans_of [] = []"
  by (simp add: uniqueClans_of_def uniqueClansMap_of_def Map_values_def)

lemma uniqueClansMap_keys:
  "map fst (uniqueClansMap_of xs) = map name (uniqueClans_of xs)"
proof (induction xs rule: rev_induct)
  case Nil
  show ?case by (simp add: uniqueClans_of_def uniqueClansMap_of_def Map_values_def)
next
  case (snoc x xs)
  then show ?case
    by (simp add: uniqueClansMap_of_snoc uniqueClansMap_step_eq uniqueClans_of_def Map_values_def)
qed

text \<open>The loop, one record later: a record is appended exactly when its name is new.\<close>

lemma uniqueClans_of_snoc:
  "uniqueClans_of (xs @ [x]) =
     (if name x \<in> set (map name (uniqueClans_of xs)) then uniqueClans_of xs
      else uniqueClans_of xs @ [x])"
  using uniqueClansMap_keys [of xs]
  by (simp add: uniqueClans_of_def uniqueClansMap_of_snoc uniqueClansMap_step_eq Map_values_def)

lemma find_snoc:
  "find P (xs @ [x]) =
     (case find P xs of Some r \<Rightarrow> Some r | None \<Rightarrow> if P x then Some x else None)"
  by (induction xs) auto

lemma filter_by_find_nonempty:
  assumes "filter P ys = (case find P xs of None \<Rightarrow> [] | Some r \<Rightarrow> [r])"
  shows "(\<exists>y \<in> set ys. P y) \<longleftrightarrow> find P xs \<noteq> None"
proof -
  have "(\<exists>y \<in> set ys. P y) \<longleftrightarrow> filter P ys \<noteq> []"
    by (auto simp: filter_empty_conv)
  with assms show ?thesis by (auto split: option.splits)
qed

lemma uniqueClans_of_filter:
  "filter (\<lambda>c. name c = k) (uniqueClans_of xs) =
     (case find (\<lambda>c. name c = k) xs of None \<Rightarrow> [] | Some r \<Rightarrow> [r])"
proof (induction xs arbitrary: k rule: rev_induct)
  case Nil
  show ?case by (simp add: uniqueClans_of_Nil)
next
  case (snoc x xs)
  have seen: "name x \<in> set (map name (uniqueClans_of xs)) \<longleftrightarrow>
              find (\<lambda>c. name c = name x) xs \<noteq> None"
  proof -
    have "name x \<in> set (map name (uniqueClans_of xs)) \<longleftrightarrow>
          (\<exists>y \<in> set (uniqueClans_of xs). name y = name x)"
      by (simp add: image_iff) metis
    then show ?thesis
      using filter_by_find_nonempty [OF snoc [of "name x"]] by simp
  qed
  show ?case
  proof (cases "find (\<lambda>c. name c = name x) xs")
    case None
    with seen have "uniqueClans_of (xs @ [x]) = uniqueClans_of xs @ [x]"
      by (simp add: uniqueClans_of_snoc)
    then show ?thesis using None snoc [of k]
      by (auto simp: find_snoc split: option.splits)
  next
    case (Some r)
    with seen have "uniqueClans_of (xs @ [x]) = uniqueClans_of xs"
      by (simp add: uniqueClans_of_snoc)
    then show ?thesis using Some snoc [of k]
      by (auto simp: find_snoc split: option.splits)
  qed
qed

lemma uniqueClans_distinct: "distinct (map name (uniqueClans_of xs))"
  by (induction xs rule: rev_induct) (simp_all add: uniqueClans_of_snoc uniqueClans_of_Nil)

lemma uniqueClans_names: "set (map name (uniqueClans_of xs)) = set (map name xs)"
  by (induction xs rule: rev_induct) (auto simp add: uniqueClans_of_snoc uniqueClans_of_Nil)

text \<open>
  Claim C2. The Deduplicator maps the empty sequence to the empty sequence. On every input
  its output has no identity key twice and has exactly the keys of the input, and for every
  key \<open>k\<close> the records of the output with key \<open>k\<close> are: the first record of the input
  with key \<open>k\<close>, alone, when the input has such a record, and none otherwise.
\<close>

theorem deduplicator_keeps_first_occurrence:
  "uniqueClans_of [] = [] \<and>
   distinct (map name (uniqueClans_of newClansData)) \<and>
   set (map name (uniqueClans_of newClansData)) = set (map name newClansData) \<and>
   (\<forall>k. filter (\<lambda>c. name c = k) (uniqueClans_of newClansData) =
        (case find (\<lambda>c. name c = k) newClansData of None \<Rightarrow> [] | Some first \<Rightarrow> [first]))"
  using uniqueClans_of_Nil uniqueClans_distinct uniqueClans_names uniqueClans_of_filter
  by blast

section \<open>Rounding to binary64\<close>

text \<open>The exponent that \<open>floor_log2\<close> finds is the one of the binade of its argument.\<close>

lemma pow2_powi: "pow2 k = 2 powi k"
  by (simp add: pow2_def power_int_def power_one_over inverse_eq_divide)

lemma pow2_add: "pow2 (a + b) = pow2 a * pow2 b"
  by (simp add: pow2_powi power_int_add)

lemma pow2_pos: "0 < pow2 k"
  by (simp add: pow2_powi)

lemma pow2_nat: "pow2 (int n) = 2 ^ n"
  by (simp add: pow2_def)

lemma pow2_less: "a < b \<Longrightarrow> pow2 a < pow2 b"
  by (simp add: pow2_powi power_int_strict_increasing)

lemma pow2_less_imp: "pow2 a < pow2 b \<Longrightarrow> a < b"
  by (rule ccontr) (use power_int_increasing [of b a "2::real"] in \<open>simp add: pow2_powi\<close>)

lemma floor_log2_ge1:
  assumes "1 \<le> a"
  shows "pow2 (floor_log2 a) \<le> a \<and> a < pow2 (floor_log2 a + 1)"
proof -
  define m where "m = \<lfloor>a\<rfloor>"
  have m: "0 < m" using assms by (simp add: m_def)
  define e where "e = nat (bitlen m - 1)"
  have bl: "bitlen m = int e + 1"
    using m by (simp add: e_def bitlen_alt_def)
  have b: "2 ^ e \<le> m" "m < 2 ^ (e + 1)"
    using bitlen_bounds [OF m] by (simp_all add: bl e_def [symmetric] nat_add_distrib)
  have fl: "floor_log2 a = int e"
    using assms by (simp add: floor_log2_def m_def [symmetric] bl)
  have "real_of_int (2 ^ e) \<le> of_int m"
    using b(1) by (simp only: of_int_le_iff)
  also have "\<dots> \<le> a" by (simp add: m_def)
  finally have lower: "pow2 (int e) \<le> a" by (simp add: pow2_nat)
  have "m + 1 \<le> 2 ^ (e + 1)" using b(2) by simp
  then have "real_of_int (m + 1) \<le> of_int (2 ^ (e + 1))"
    by (simp only: of_int_le_iff)
  moreover have "a < of_int (m + 1)"
    by (simp add: m_def)
  ultimately have "a < 2 ^ (e + 1)" by simp
  then have upper: "a < pow2 (int e + 1)"
    using pow2_nat [of "e + 1"] by (simp add: add.commute)
  show ?thesis using lower upper by (simp add: fl)
qed

lemma floor_log2_bounds:
  assumes "0 < a"
  shows "pow2 (floor_log2 a) \<le> a \<and> a < pow2 (floor_log2 a + 1)"
proof (cases "1 \<le> a")
  case True
  then show ?thesis by (rule floor_log2_ge1)
next
  case False
  define b where "b = 1 / a"
  have b: "1 \<le> b" "0 < b" "a = 1 / b"
    using False assms by (simp_all add: b_def)
  define m where "m = \<lfloor>b\<rfloor>"
  have m: "0 < m" using b(1) by (simp add: m_def)
  define k where "k = nat (bitlen m - 1)"
  have bl: "bitlen m - 1 = int k"
    using m by (simp add: k_def bitlen_alt_def)
  have "floor_log2 b = int k"
    using b(1) by (simp add: floor_log2_def m_def [symmetric] bl)
  with floor_log2_ge1 [OF b(1)] have kb: "2 ^ k \<le> b" "b < 2 ^ (k + 1)"
    using pow2_nat [of k] pow2_nat [of "k + 1"] by (simp_all add: add.commute)
  have le: "a * 2 ^ k \<le> 1"
    using kb(1) b(2) by (simp add: b(3) field_simps)
  have gt: "1 < a * 2 ^ (k + 1)"
    using kb(2) b(2) by (simp add: b(3) field_simps)
  have p1: "pow2 (- int k) = 1 / 2 ^ k"
    by (cases "k = 0") (simp_all add: pow2_def)
  have p2: "pow2 (- int k - 1) = 1 / 2 ^ (k + 1)"
    by (simp add: pow2_def nat_add_distrib nat_diff_distrib)
  have p3: "pow2 (- int k + 1) = 2 * pow2 (- int k)"
    using pow2_add [of "- int k" 1] by (simp add: pow2_def)
  show ?thesis
  proof (cases "a * 2 ^ k = 1")
    case True
    then have fl: "floor_log2 a = - int k"
      using False by (simp add: floor_log2_def b_def [symmetric] m_def [symmetric] bl Let_def)
    have a: "a = 1 / 2 ^ k"
      using True by (simp add: field_simps)
    have "pow2 (- int k) = a"
      by (simp add: p1 a)
    moreover have "a < 2 * a"
      using assms by simp
    ultimately have "pow2 (- int k) \<le> a" "a < pow2 (- int k + 1)"
      by (simp_all only: p3)
    then show ?thesis
      by (simp only: fl simp_thms)
  next
    case ne: False
    then have fl: "floor_log2 a = - int k - 1"
      using False by (simp add: floor_log2_def b_def [symmetric] m_def [symmetric] bl Let_def)
    have "1 / 2 ^ (k + 1) < a"
      using gt by (simp add: field_simps)
    moreover have "a < 1 / 2 ^ k"
      using le ne by (simp add: field_simps)
    ultimately show ?thesis
      by (simp add: fl p1 p2)
  qed
qed

lemma floor_log2_unique:
  assumes "0 < a" and "pow2 e \<le> a" and "a < pow2 (e + 1)"
  shows "floor_log2 a = e"
proof -
  let ?f = "floor_log2 a"
  have f: "pow2 ?f \<le> a" "a < pow2 (?f + 1)"
    using floor_log2_bounds [OF assms(1)] by simp_all
  have "pow2 e < pow2 (?f + 1)" using assms(2) f(2) by simp
  then have "e < ?f + 1" by (rule pow2_less_imp)
  moreover have "pow2 ?f < pow2 (e + 1)" using f(1) assms(3) by simp
  then have "?f < e + 1" by (rule pow2_less_imp)
  ultimately show ?thesis by simp
qed

text \<open>
  A binary64 value is an integer of at most 53 bits times a power of two, the exponent from
  \<open>-1074\<close> to \<open>971\<close>. Rounding leaves it as it is.
\<close>

lemma round_half_even_of_int: "round_half_even (of_int k) = k"
  by (simp add: round_half_even_def)

lemma bitlen_less_pow2:
  assumes "0 < m" and "m < 2 ^ k"
  shows "bitlen m \<le> int k"
proof (rule ccontr)
  assume "\<not> bitlen m \<le> int k"
  then have "k \<le> nat (bitlen m - 1)" by simp
  then have "(2::int) ^ k \<le> 2 ^ nat (bitlen m - 1)"
    by (simp add: power_increasing)
  also have "\<dots> \<le> m"
    using bitlen_bounds [OF assms(1)] by simp
  finally show False using assms(2) by simp
qed

lemma binary64_exact:
  assumes "\<bar>m\<bar> < 2 ^ 53" and "- 1074 \<le> e" and "e \<le> 971"
  shows "binary64 (of_int m * pow2 e) = Finite (of_int m * pow2 e)"
proof (cases "m = 0")
  case True
  then show ?thesis by (simp add: binary64_def)
next
  case False
  define x where "x = real_of_int m * pow2 e"
  define k where "k = \<bar>m\<bar>"
  have k: "0 < k" "k < 2 ^ 53"
    using False assms(1) by (simp_all add: k_def)
  define b where "b = nat (bitlen k - 1)"
  have bl: "bitlen k = int b + 1"
    using k(1) by (simp add: b_def bitlen_alt_def)
  have b53: "int b + 1 \<le> 53"
    using bitlen_less_pow2 [OF k] by (simp add: bl)
  have kb: "2 ^ b \<le> k" "k < 2 ^ (b + 1)"
    using bitlen_bounds [OF k(1)] by (simp_all add: bl b_def [symmetric] nat_add_distrib)
  define a where "a = real_of_int k * pow2 e"
  have a_pos: "0 < a"
    using k(1) pow2_pos [of e] by (simp add: a_def)
  have abs_x: "\<bar>x\<bar> = a"
    using pow2_pos [of e] by (simp add: x_def a_def k_def abs_mult)
  have x_ne: "x \<noteq> 0"
    using a_pos abs_x by auto
  have sgn: "(if 0 < x then 1 else - 1) * a = x"
    using abs_x x_ne by (auto simp: abs_if split: if_splits)
  \<comment> \<open>the exponent\<close>
  have "real_of_int (2 ^ b) \<le> of_int k"
    using kb(1) by (simp only: of_int_le_iff)
  then have "pow2 (int b) * pow2 e \<le> a"
    using pow2_pos [of e] by (simp add: a_def pow2_nat)
  then have lower: "pow2 (int b + e) \<le> a"
    by (simp add: pow2_add)
  have "real_of_int k < of_int (2 ^ (b + 1))"
    using kb(2) by (simp only: of_int_less_iff)
  then have "a < pow2 (int (b + 1)) * pow2 e"
    using pow2_pos [of e] unfolding a_def pow2_nat by simp
  then have upper: "a < pow2 (int b + e + 1)"
    using pow2_add [of "int (b + 1)" e] by (simp add: add.commute add.left_commute)
  have fl: "floor_log2 a = int b + e"
    using a_pos lower upper by (rule floor_log2_unique)
  \<comment> \<open>the spacing\<close>
  define q where "q = max (int b + e) (- 1022) - 52"
  have q_le: "q \<le> e"
    using b53 assms(2) by (simp add: q_def)
  define d where "d = nat (e - q)"
  have e_split: "e = q + int d"
    using q_le by (simp add: d_def)
  have pe: "pow2 e = pow2 q * 2 ^ d"
    using pow2_add [of q "int d"] by (simp add: e_split [symmetric] pow2_nat)
  have scaled: "a / pow2 q = of_int (k * 2 ^ d)"
    using pow2_pos [of q] by (simp add: a_def pe)
  have n: "round_half_even (a / pow2 q) = k * 2 ^ d"
    unfolding scaled by (rule round_half_even_of_int)
  have restored: "real_of_int (k * 2 ^ d) * pow2 q = a"
    by (simp add: a_def pe)
  have no_overflow: "\<not> (971 < q \<or> (q = 971 \<and> k * 2 ^ d = 2 ^ 53))"
  proof -
    have "q \<le> 971" using q_le assms(3) by simp
    moreover have "k * 2 ^ d \<noteq> 2 ^ 53" if "q = 971"
    proof -
      from that q_le assms(3) have "d = 0" by (simp add: d_def)
      then show ?thesis using k(2) by simp
    qed
    ultimately show ?thesis by auto
  qed
  have "binary64 x =
        Finite ((if 0 < x then 1 else - 1) * real_of_int (k * 2 ^ d) * pow2 q)"
    using x_ne no_overflow
    unfolding binary64_def Let_def abs_x fl q_def [symmetric] n
    by (simp only: if_False)
  also have "(if 0 < x then 1 else - 1) * real_of_int (k * 2 ^ d) * pow2 q =
             (if 0 < x then 1 else - 1) * (real_of_int (k * 2 ^ d) * pow2 q)"
    by (simp only: mult.assoc)
  also have "\<dots> = x"
    by (simp only: restored sgn)
  finally show ?thesis
    by (simp only: x_def)
qed

lemma binary64_of_int:
  assumes "\<bar>n\<bar> < 2 ^ 53"
  shows "binary64 (of_int n) = Finite (of_int n)"
  using binary64_exact [OF assms, of 0] by (simp add: pow2_def)

lemma Number_minus_of_int:
  assumes "\<bar>a\<bar> < 2 ^ 53" and "\<bar>b\<bar> < 2 ^ 53" and "\<bar>a - b\<bar> < 2 ^ 53"
  shows "Number_minus (binary64 (of_int a)) (binary64 (of_int b)) = Finite (of_int (a - b))"
  using binary64_of_int [OF assms(1)] binary64_of_int [OF assms(2)] binary64_of_int [OF assms(3)]
  by simp

text \<open>From \<open>2 ^ 1024\<close> on, and from \<open>- (2 ^ 1024)\<close> down, rounding gives the infinities.\<close>

lemma bitlen_greater_pow2:
  assumes "(2::int) ^ k \<le> m"
  shows "int k < bitlen m"
proof -
  have m: "0 < m"
    using assms zero_less_power [of "2::int" k] by linarith
  have "m < 2 ^ nat (bitlen m)"
    using bitlen_bounds [OF m] by simp
  with assms have "(2::int) ^ k < 2 ^ nat (bitlen m)"
    by (rule le_less_trans)
  then have "k < nat (bitlen m)"
    by (simp add: power_strict_increasing_iff)
  then show ?thesis by simp
qed

lemma binary64_overflow:
  assumes "2 ^ 1024 \<le> x"
  shows "binary64 x = PosInfinity"
proof -
  have x: "1 \<le> x" "0 < x"
    using assms one_le_power [of "2::real" 1024] by linarith+
  have "(2::int) ^ 1024 \<le> \<lfloor>x\<rfloor>"
    using assms by (simp add: le_floor_iff)
  then have "1024 < bitlen \<lfloor>x\<rfloor>"
    using bitlen_greater_pow2 [of 1024 "\<lfloor>x\<rfloor>"] by simp
  then have "971 < max (floor_log2 \<bar>x\<bar>) (- 1022) - 52"
    using x by (simp add: floor_log2_def)
  moreover have "x \<noteq> 0"
    using x by simp
  ultimately show ?thesis
    using x(2) unfolding binary64_def Let_def by (simp only: if_False if_True simp_thms)
qed

lemma binary64_overflow_neg:
  assumes "x \<le> - (2 ^ 1024)"
  shows "binary64 x = NegInfinity"
proof -
  have x: "1 \<le> - x" "x < 0"
    using assms one_le_power [of "2::real" 1024] by linarith+
  have "(2::int) ^ 1024 \<le> \<lfloor>- x\<rfloor>"
    using assms by (simp add: le_floor_iff)
  then have "1024 < bitlen \<lfloor>- x\<rfloor>"
    using bitlen_greater_pow2 [of 1024 "\<lfloor>- x\<rfloor>"] by simp
  moreover have "\<bar>x\<bar> = - x"
    using x by simp
  ultimately have "971 < max (floor_log2 \<bar>x\<bar>) (- 1022) - 52"
    using x by (simp add: floor_log2_def)
  moreover have "x \<noteq> 0" "\<not> 0 < x"
    using x by simp_all
  ultimately show ?thesis
    unfolding binary64_def Let_def by (simp only: if_False if_True simp_thms)
qed

lemma Number_minus_infinite_scores:
  "Number_minus (binary64 (2 ^ 1024)) (binary64 (2 ^ 1024)) = NaN"
  "\<bar>m\<bar> < 2 ^ 53 \<Longrightarrow> - 1074 \<le> e \<Longrightarrow> e \<le> 971 \<Longrightarrow>
     Number_minus (binary64 (2 ^ 1024)) (binary64 (of_int m * pow2 e)) = PosInfinity"
  "\<bar>m\<bar> < 2 ^ 53 \<Longrightarrow> - 1074 \<le> e \<Longrightarrow> e \<le> 971 \<Longrightarrow>
     Number_minus (binary64 (of_int m * pow2 e)) (binary64 (2 ^ 1024)) = NegInfinity"
  by (simp_all add: binary64_overflow binary64_exact)

section \<open>The Delta Calculator\<close>

text \<open>The subtraction on some numbers: exact, rounded, overflowing, undefined.\<close>

lemma Number_minus_examples:
  "Number_minus (binary64 110) (binary64 100) = Finite 10"
  "Number_minus (binary64 (10 ^ 16)) (binary64 1) = Finite (10 ^ 16)"
  "Number_minus (binary64 (3 / 10)) (binary64 (1 / 10)) =
     Finite (7205759403792793 / 36028797018963968)"
  "Number_minus (binary64 (1234567 / 1000)) (binary64 (5123 / 1000)) =
     Finite (2703575947398873 / 2199023255552)"
  "Number_minus PosInfinity (binary64 1) = PosInfinity"
  "Number_minus PosInfinity PosInfinity = NaN"
  by code_simp+

text \<open>
  Claim C3. The Delta Calculator returns one Tracked Record for each current Record, at the
  same position and with the same name and score. When the name is a key of the previous
  map, the point change is the current score minus the score of the Record stored under that
  key, the subtraction being that of JavaScript numbers; when it is not, the point change
  is 0.
\<close>

theorem delta_calculator_point_change:
  "length (trackedClans_of prev uniqueClans) = length uniqueClans \<and>
   (\<forall>i < length uniqueClans.
      let clan = uniqueClans ! i; tracked = trackedClans_of prev uniqueClans ! i
      in name tracked = name clan \<and> score tracked = score clan \<and>
         (Map_has prev (name clan) \<longrightarrow>
            (\<exists>p. Map_get prev (name clan) = Some p \<and>
                 pointChange tracked =
                   Number_minus (binary64 (score clan)) (binary64 (score p)))) \<and>
         (\<not> Map_has prev (name clan) \<longrightarrow> pointChange tracked = Finite 0))"
proof (intro conjI allI impI)
  show "length (trackedClans_of prev uniqueClans) = length uniqueClans"
    by (simp add: trackedClans_of_def)
next
  fix i assume i: "i < length uniqueClans"
  define clan where "clan = uniqueClans ! i"
  have nth: "trackedClans_of prev uniqueClans ! i = withPointChange prev clan"
    using i by (simp add: trackedClans_of_def clan_def)
  show "let clan = uniqueClans ! i; tracked = trackedClans_of prev uniqueClans ! i
      in name tracked = name clan \<and> score tracked = score clan \<and>
         (Map_has prev (name clan) \<longrightarrow>
            (\<exists>p. Map_get prev (name clan) = Some p \<and>
                 pointChange tracked =
                   Number_minus (binary64 (score clan)) (binary64 (score p)))) \<and>
         (\<not> Map_has prev (name clan) \<longrightarrow> pointChange tracked = Finite 0)"
  proof (cases "Map_get prev (name clan)")
    case None
    then show ?thesis
      using Map_get_None_iff [of prev "name clan"]
      by (simp add: nth clan_def [symmetric] withPointChange_def)
  next
    case (Some p)
    then show ?thesis
      using Map_get_None_iff [of prev "name clan"]
      by (simp add: nth clan_def [symmetric] withPointChange_def)
  qed
qed

theorem delta_calculator_point_change_witness:
  "Map_has snapshot_AB (name A110) \<and> \<not> Map_has snapshot_AB (name C7) \<and>
   length (trackedClans_of snapshot_AB [A110, C7]) = 2 \<and>
   pointChange (trackedClans_of snapshot_AB [A110, C7] ! 0) = Finite 10 \<and>
   pointChange (trackedClans_of snapshot_AB [A110, C7] ! 1) = Finite 0"
proof -
  have has: "Map_has snapshot_AB (name A110)" "\<not> Map_has snapshot_AB (name C7)"
    by (simp_all add: Map_has_def snapshot_AB_def A100_def A110_def B90_def C7_def)
  have get: "Map_get snapshot_AB (name A110) = Some A100"
    by (simp add: Map_get_def snapshot_AB_def A100_def A110_def)
  have scores: "Number_minus (binary64 (score A110)) (binary64 (score A100)) = Finite 10"
    by (simp add: A100_def A110_def Number_minus_examples)
  note delta = delta_calculator_point_change [of snapshot_AB "[A110, C7]"]
  from delta have "length (trackedClans_of snapshot_AB [A110, C7]) = 2"
    by simp
  moreover from delta has get scores
  have "pointChange (trackedClans_of snapshot_AB [A110, C7] ! 0) = Finite 10"
    by (auto simp: Let_def)
  moreover from delta has
  have "pointChange (trackedClans_of snapshot_AB [A110, C7] ! 1) = Finite 0"
    by (auto simp: Let_def)
  ultimately show ?thesis
    using has by simp
qed

section \<open>The Ranker\<close>

lemma Array_sort_insert_byScore:
  "Array_sort_insert byScoreDescending x ys = insort_key (\<lambda>t. - score t) x ys"
  by (induction ys) (simp_all add: byScoreDescending_def)

lemma sortedData_of_sort_key: "sortedData_of xs = sort_key (\<lambda>t. - score t) xs"
  by (induction xs) (simp_all add: sortedData_of_def Array_sort_def Array_sort_insert_byScore)

text \<open>
  Claim C4. The output of the Ranker has the same records as its input, each as often; the
  scores never increase along the output; and for every score, the records with exactly
  that score come in the output in the order in which they come in the input.
\<close>

theorem ranker_sorts_descending_stably:
  "mset (sortedData_of trackedClans) = mset trackedClans \<and>
   sorted_wrt (\<lambda>a b. score a \<ge> score b) (sortedData_of trackedClans) \<and>
   (\<forall>s. filter (\<lambda>t. score t = s) (sortedData_of trackedClans) =
        filter (\<lambda>t. score t = s) trackedClans)"
proof (intro conjI allI)
  show "mset (sortedData_of trackedClans) = mset trackedClans"
    by (simp add: sortedData_of_sort_key)
  have "sorted (map (\<lambda>t. - score t) (sortedData_of trackedClans))"
    by (simp add: sortedData_of_sort_key)
  then show "sorted_wrt (\<lambda>a b. score a \<ge> score b) (sortedData_of trackedClans)"
    by (simp add: sorted_map)
next
  fix s
  have "filter (\<lambda>t. - score t = - s) (sort_key (\<lambda>t. - score t) trackedClans) =
        filter (\<lambda>t. - score t = - s) trackedClans"
    by (rule sort_key_stable)
  then show "filter (\<lambda>t. score t = s) (sortedData_of trackedClans) =
             filter (\<lambda>t. score t = s) trackedClans"
    by (simp add: sortedData_of_sort_key)
qed

section \<open>The scenario with a duplicate\<close>

text \<open>
  Claim C9. With the previous snapshot \<^verbatim>\<open>{A:100, B:90}\<close> and the extraction
  \<^verbatim>\<open>[{A,110},{B,90},{A,110}]\<close>, the Deduplicator gives \<^verbatim>\<open>[{A,110},{B,90}]\<close>, the Delta
  Calculator gives \<^verbatim>\<open>[{A,110,+10},{B,90,0}]\<close>, and the Ranker returns that list as it is.
\<close>

theorem scenario_duplicate_A:
  "uniqueClans_of [A110, B90, A110] = [A110, B90] \<and>
   trackedClans_of snapshot_AB [A110, B90] =
     [\<lparr>name = ''A'', score = 110, pointChange = Finite 10\<rparr>,
      \<lparr>name = ''B'', score = 90, pointChange = Finite 0\<rparr>] \<and>
   sortedData_of (trackedClans_of snapshot_AB (uniqueClans_of [A110, B90, A110])) =
     [\<lparr>name = ''A'', score = 110, pointChange = Finite 10\<rparr>,
      \<lparr>name = ''B'', score = 90, pointChange = Finite 0\<rparr>]"
  by code_simp

section \<open>What one call of \<^verbatim>\<open>fetchData\<close> changes\<close>

lemma String_includes_iff: "String_includes s t \<longleftrightarrow> sublist t s"
  by (induction s) (simp_all add: sublist_Cons_right)

lemma stopPolling_keeps:
  "clans (stopPolling st) = clans st" "error (stopPolling st) = error st"
  "previousClansMap (stopPolling st) = previousClansMap st"
  "lastUpdated (stopPolling st) = lastUpdated st" "loading (stopPolling st) = loading st"
  "inFlight (stopPolling st) = inFlight st" "nextHandle (stopPolling st) = nextHandle st"
  "effectDep (stopPolling st) = effectDep st"
  by (simp_all add: stopPolling_def split: option.splits)

lemma catch_block_quota:
  "sublist ''quota'' (toLowerCase m) \<Longrightarrow>
   catch_block (Error m) st = stopPolling (st\<lparr>error := Some QUOTA_MESSAGE\<rparr>)"
  by (simp add: catch_block_def errorMessage_of_def String_includes_iff)

lemma catch_block_key:
  "\<not> sublist ''quota'' (toLowerCase m) \<Longrightarrow> sublist ''api key not valid'' (toLowerCase m) \<Longrightarrow>
   catch_block (Error m) st = stopPolling (st\<lparr>error := Some KEY_MESSAGE\<rparr>)"
  by (simp add: catch_block_def errorMessage_of_def String_includes_iff)

lemma catch_block_keeps:
  "clans (catch_block e st) = clans st"
  "previousClansMap (catch_block e st) = previousClansMap st"
  "lastUpdated (catch_block e st) = lastUpdated st"
  "inFlight (catch_block e st) = inFlight st" "nextHandle (catch_block e st) = nextHandle st"
  "effectDep (catch_block e st) = effectDep st"
  by (simp_all add: catch_block_def Let_def stopPolling_keeps)

lemma fetchData_settle_failure:
  "newClansData_of env = Inl e \<Longrightarrow>
   fetchData_settle c env st = (catch_block e st)\<lparr>loading := False\<rparr>"
  by (simp add: fetchData_settle_def)

lemma fetchData_settle_success:
  "newClansData_of env = Inr newClansData \<Longrightarrow>
   fetchData_settle c env st =
     st\<lparr>error := (if truthy c then None else error st),
        clans := sortedData_of (trackedClans_of (previousClansMap st) (uniqueClans_of newClansData)),
        previousClansMap := Map_new (map (\<lambda>c. (name c, c)) (uniqueClans_of newClansData)),
        lastUpdated := Some (new_Date env),
        loading := False\<rparr>"
  by (simp add: fetchData_settle_def Let_def)

lemma fetchData_settle_keeps:
  "inFlight (fetchData_settle c env st) = inFlight st"
  "effectDep (fetchData_settle c env st) = effectDep st"
  by (cases "newClansData_of env";
      simp add: fetchData_settle_failure fetchData_settle_success catch_block_keeps)+

lemma useEffect_body_keeps:
  "clans (useEffect_body st) = clans st" "error (useEffect_body st) = error st"
  "previousClansMap (useEffect_body st) = previousClansMap st"
  "lastUpdated (useEffect_body st) = lastUpdated st"
  by (simp_all add: useEffect_body_def fetchData_begin_def Let_def)

lemma render_keeps:
  "clans (render st) = clans st" "error (render st) = error st"
  "previousClansMap (render st) = previousClansMap st"
  "lastUpdated (render st) = lastUpdated st"
  by (simp_all add: render_def useEffect_body_keeps stopPolling_keeps)

text \<open>
  What a call publishes depends neither on the other waiting calls nor on the render that
  follows it.
\<close>

lemma run_settles_published:
  assumes "i < length (inFlight st)"
  shows "clans (run_settles i env st) = clans (fetchData_settle (inFlight st ! i) env st)"
    and "error (run_settles i env st) = error (fetchData_settle (inFlight st ! i) env st)"
    and "previousClansMap (run_settles i env st) =
         previousClansMap (fetchData_settle (inFlight st ! i) env st)"
    and "lastUpdated (run_settles i env st) =
         lastUpdated (fetchData_settle (inFlight st ! i) env st)"
  using assms
  by (cases "newClansData_of env";
      simp add: run_settles_def fetchData_returns_def render_keeps fetchData_settle_failure
        fetchData_settle_success catch_block_def Let_def stopPolling_keeps)+

lemma ticking_AB_clans:
  "clans ticking_AB = [\<lparr>name = ''A'', score = 100, pointChange = Finite 0\<rparr>,
                       \<lparr>name = ''B'', score = 90, pointChange = Finite 0\<rparr>]"
  by code_simp

lemma ticking_AB_reference: "previousClansMap ticking_AB = snapshot_AB"
  by code_simp

lemma ticking_AB_inFlight: "inFlight ticking_AB = [None]"
  by code_simp

section \<open>Where a run can fail\<close>

text \<open>
  The failure classes: the page request rejects, its status is not a success, its body cannot
  be read (transport); the extraction call rejects, it answers nothing, or its text does not
  parse (extraction). Each of them makes \<open>newClansData_of\<close> return the thrown value.
\<close>

lemma failure_sources:
  "fetch_result env = Inl e \<Longrightarrow> newClansData_of env = Inl e"
  "fetch_result env = Inr r \<Longrightarrow> \<not> ok r \<Longrightarrow>
     newClansData_of env =
       Inl (Error (''Network response was not ok. Status: '' @ Number_toString (status r)))"
  "fetch_result env = Inr r \<Longrightarrow> ok r \<Longrightarrow> text_result r = Inl e \<Longrightarrow>
     newClansData_of env = Inl e"
  "fetch_result env = Inr r \<Longrightarrow> ok r \<Longrightarrow> text_result r = Inr body \<Longrightarrow>
     generateContent_text env = Inl e \<Longrightarrow> newClansData_of env = Inl e"
  "fetch_result env = Inr r \<Longrightarrow> ok r \<Longrightarrow> text_result r = Inr body \<Longrightarrow>
     generateContent_text env = Inr (Some (c # cs)) \<Longrightarrow>
     newClansData_of env = JSON_parse_result env"
  by (simp_all add: newClansData_of_def)

section \<open>Failing runs\<close>

text \<open>
  Claim C7. When a run fails, wherever it fails (the page request, its status, its body, the
  extraction call, an empty answer, the parsing), the published record list and the
  previous-snapshot reference are after the run what they were before it: after the call
  itself, and after the render that follows it.
\<close>

theorem failure_keeps_snapshot_and_reference:
  assumes "newClansData_of env = Inl e"
  shows "clans (run_settles i env st) = clans st \<and>
         previousClansMap (run_settles i env st) = previousClansMap st \<and>
         clans (fetchData_settle c env st) = clans st \<and>
         previousClansMap (fetchData_settle c env st) = previousClansMap st"
proof (cases "i < length (inFlight st)")
  case True
  then show ?thesis
    using assms by (simp add: run_settles_published fetchData_settle_failure catch_block_keeps)
next
  case False
  then show ?thesis
    using assms by (simp add: run_settles_def fetchData_settle_failure catch_block_keeps)
qed

theorem failure_keeps_snapshot_and_reference_witness:
  "newClansData_of (env_throws quota_text) = Inl (Error quota_text) \<and>
   clans (run_settles 0 (env_throws quota_text) ticking_AB) =
     [\<lparr>name = ''A'', score = 100, pointChange = Finite 0\<rparr>,
      \<lparr>name = ''B'', score = 90, pointChange = Finite 0\<rparr>] \<and>
   previousClansMap (run_settles 0 (env_throws quota_text) ticking_AB) = snapshot_AB"
proof -
  have fails: "newClansData_of (env_throws quota_text) = Inl (Error quota_text)"
    by (simp add: newClansData_of_def env_throws_def page_def)
  show ?thesis
    using failure_keeps_snapshot_and_reference [OF fails, of 0 ticking_AB None] fails
    by (simp add: ticking_AB_clans ticking_AB_reference)
qed

section \<open>An empty answer of the extraction service\<close>

text \<open>
  Claim C1, as stated, fails on the text \<^verbatim>\<open>[]\<close>: it is not an empty string, the guard of
  line 152 lets it pass, it parses to the empty array, and the run succeeds. After the
  snapshot with A and B was published, such a run publishes the empty snapshot in its place,
  empties the previous-snapshot reference and sets no error message.
\<close>

theorem empty_list_text_counterexample:
  "generateContent_text env_empty_list = Inr (Some ''[]'') \<and>
   newClansData_of env_empty_list = Inr [] \<and>
   clans ticking_AB = [\<lparr>name = ''A'', score = 100, pointChange = Finite 0\<rparr>,
                       \<lparr>name = ''B'', score = 90, pointChange = Finite 0\<rparr>] \<and>
   clans (run_settles 0 env_empty_list ticking_AB) = [] \<and>
   previousClansMap (run_settles 0 env_empty_list ticking_AB) = [] \<and>
   error (run_settles 0 env_empty_list ticking_AB) = None"
  by code_simp

text \<open>
  Claim C1, amended. When the page was fetched and the extraction service returns no text or
  the empty string, the run fails with the extraction failure
  \<^verbatim>\<open>AI model returned an empty response.\<close>: the published record list stays what it was and
  the error message is set to the generic message with that text.
\<close>

theorem empty_response_is_extraction_failure:
  assumes "fetch_result env = Inr response" and "ok response"
    and "text_result response = Inr responseText"
    and "generateContent_text env = Inr None \<or> generateContent_text env = Inr (Some [])"
    and "i < length (inFlight st)"
  shows "newClansData_of env = Inl (Error ''AI model returned an empty response.'') \<and>
         clans (run_settles i env st) = clans st \<and>
         error (run_settles i env st) =
           Some ''Failed to process data with AI: AI model returned an empty response.''"
proof -
  have fails: "newClansData_of env = Inl (Error ''AI model returned an empty response.'')"
    using assms(1-4) by (auto simp: newClansData_of_def)
  have "catch_block (Error ''AI model returned an empty response.'') st =
        st\<lparr>error := Some ''Failed to process data with AI: AI model returned an empty response.''\<rparr>"
    by (simp add: catch_block_def errorMessage_of_def toLowerCase_def toLowerCase_char_def)
  then show ?thesis
    using fails assms(5) by (simp add: run_settles_published fetchData_settle_failure)
qed

theorem empty_response_is_extraction_failure_witness:
  "fetch_result env_undefined = Inr page \<and> ok page \<and>
   text_result page = Inr ''1. A 100 2. B 90'' \<and>
   generateContent_text env_undefined = Inr None \<and>
   0 < length (inFlight ticking_AB) \<and>
   clans (run_settles 0 env_undefined ticking_AB) =
     [\<lparr>name = ''A'', score = 100, pointChange = Finite 0\<rparr>,
      \<lparr>name = ''B'', score = 90, pointChange = Finite 0\<rparr>] \<and>
   error (run_settles 0 env_undefined ticking_AB) =
     Some ''Failed to process data with AI: AI model returned an empty response.''"
proof -
  have h: "fetch_result env_undefined = Inr page" "ok page"
      "text_result page = Inr ''1. A 100 2. B 90''"
      "generateContent_text env_undefined = Inr None \<or>
       generateContent_text env_undefined = Inr (Some [])"
      "0 < length (inFlight ticking_AB)"
    by (simp_all add: env_undefined_def page_def ticking_AB_inFlight)
  show ?thesis
    using empty_response_is_extraction_failure [OF h] h
    by (simp add: ticking_AB_clans env_undefined_def page_def)
qed

section \<open>The polling invariant\<close>

lemma stopPolling_invariant:
  assumes "polling_invariant st"
  shows "polling_invariant (stopPolling st)" and "timers (stopPolling st) = []"
    and "intervalRef (stopPolling st) = None"
  using assms by (auto simp: polling_invariant_def stopPolling_def split: option.splits)

lemma polling_invariant_error_update:
  "polling_invariant st \<Longrightarrow> e \<noteq> Some [] \<Longrightarrow> polling_invariant (st\<lparr>error := e\<rparr>)"
  by (simp add: polling_invariant_def cong: option.case_cong)

lemma polling_invariant_inFlight_update:
  "polling_invariant st \<Longrightarrow> polling_invariant (st\<lparr>inFlight := w\<rparr>)"
  by (simp add: polling_invariant_def cong: option.case_cong)

lemma catch_block_invariant:
  assumes "polling_invariant st"
  shows "polling_invariant (catch_block e st)"
  using assms
  by (simp add: catch_block_def Let_def stopPolling_invariant polling_invariant_error_update
      QUOTA_MESSAGE_def KEY_MESSAGE_def)

lemma fetchData_settle_invariant:
  assumes "polling_invariant st"
  shows "polling_invariant (fetchData_settle c env st)"
proof (cases "newClansData_of env")
  case (Inl e)
  have "polling_invariant (catch_block e st)"
    using assms by (rule catch_block_invariant)
  then show ?thesis
    by (simp add: fetchData_settle_failure [OF Inl] polling_invariant_def cong: option.case_cong)
next
  case (Inr nd)
  show ?thesis
    using assms
    by (simp add: fetchData_settle_success [OF Inr] polling_invariant_def cong: option.case_cong)
qed

lemma fetchData_returns_invariant:
  "polling_invariant st \<Longrightarrow> polling_invariant (fetchData_returns i env st)"
  by (simp add: fetchData_returns_def fetchData_settle_invariant polling_invariant_inFlight_update)

lemma useEffect_body_invariant:
  assumes "polling_invariant st" and "timers st = []"
  shows "polling_invariant (useEffect_body st)"
    and "effectDep (useEffect_body st) = error (useEffect_body st)"
    and "inFlight (useEffect_body st) = inFlight st @ [error st]"
  using assms
  by (simp_all add: polling_invariant_def useEffect_body_def fetchData_begin_def Let_def)

lemma render_invariant:
  assumes "polling_invariant st"
  shows "polling_invariant (render st)" and "effectDep (render st) = error (render st)"
proof -
  have s: "polling_invariant (stopPolling st)" "timers (stopPolling st) = []"
    using assms by (rule stopPolling_invariant)+
  show "polling_invariant (render st)"
    using assms useEffect_body_invariant(1) [OF s] by (simp add: render_def)
  show "effectDep (render st) = error (render st)"
    using useEffect_body_invariant(2) [OF s] by (simp add: render_def)
qed

lemma render_unchanged: "effectDep st = error st \<Longrightarrow> render st = st"
  by (simp add: render_def)

lemma reachable_invariant:
  "reachable st \<Longrightarrow> polling_invariant st \<and> effectDep st = error st"
proof (induction rule: reachable.induct)
  case at_mount
  show ?case
    by (simp add: polling_invariant_def mount_def useEffect_body_def fetchData_begin_def
        initial_def Let_def)
next
  case (after_tick st h)
  show ?case
  proof (cases "map_of (timers st) h")
    case None
    with after_tick.IH show ?thesis by (simp add: timer_fires_def)
  next
    case (Some c)
    have "render (fetchData_begin c st) = fetchData_begin c st"
      using after_tick.IH by (intro render_unchanged) (simp add: fetchData_begin_def)
    with Some after_tick.IH show ?thesis
      by (simp add: timer_fires_def fetchData_begin_def polling_invariant_def
          cong: option.case_cong)
  qed
next
  case (after_run st i env)
  show ?case
  proof (cases "i < length (inFlight st)")
    case True
    have "polling_invariant (fetchData_returns i env st)"
      using after_run.IH by (simp add: fetchData_returns_invariant)
    then show ?thesis
      using True by (simp add: run_settles_def render_invariant)
  next
    case False
    with after_run.IH show ?thesis by (simp add: run_settles_def)
  qed
qed

lemma sequential_reachable: "sequential st \<Longrightarrow> reachable st"
  by (induction rule: sequential.induct) (auto intro: reachable.intros)

text \<open>
  When runs do not overlap, at most one call waits, and its closure has captured the error
  message that is current.
\<close>

lemma sequential_inFlight:
  "sequential st \<Longrightarrow> inFlight st = [] \<or> inFlight st = [error st]"
proof (induction rule: sequential.induct)
  case mounted
  show ?case
    by (simp add: mount_def useEffect_body_def fetchData_begin_def initial_def Let_def)
next
  case (tick st h)
  have inv: "polling_invariant st" "effectDep st = error st"
    using reachable_invariant [OF sequential_reachable [OF tick.hyps(1)]] by simp_all
  show ?case
  proof (cases "map_of (timers st) h")
    case None
    with tick show ?thesis by (simp add: timer_fires_def)
  next
    case (Some c)
    with inv have c: "c = error st"
      by (auto simp: polling_invariant_def split: option.splits if_splits)
    have "render (fetchData_begin c st) = fetchData_begin c st"
      using inv by (intro render_unchanged) (simp add: fetchData_begin_def)
    with Some c tick.hyps(2) show ?thesis
      by (simp add: timer_fires_def fetchData_begin_def)
  qed
next
  case (settle st env)
  have inv: "polling_invariant st"
    using reachable_invariant [OF sequential_reachable [OF settle.hyps]] by simp
  show ?case
  proof (cases "inFlight st")
    case Nil
    with settle show ?thesis by (simp add: run_settles_def)
  next
    case (Cons c cs)
    with settle.IH have cs: "cs = []" by auto
    let ?r = "fetchData_returns 0 env st"
    have r: "polling_invariant ?r" "inFlight ?r = []"
      using inv by (simp_all add: fetchData_returns_invariant)
         (simp add: fetchData_returns_def fetchData_settle_keeps Cons cs)
    show ?thesis
    proof (cases "effectDep ?r = error ?r")
      case True
      then show ?thesis
        using r by (simp add: run_settles_def Cons render_unchanged)
    next
      case False
      have s: "polling_invariant (stopPolling ?r)" "timers (stopPolling ?r) = []"
        using r(1) by (rule stopPolling_invariant)+
      have "inFlight (render ?r) = [error (render ?r)]"
        using False useEffect_body_invariant(3) [OF s] r(2)
        by (simp add: render_def stopPolling_keeps useEffect_body_keeps)
      then show ?thesis
        by (simp add: run_settles_def Cons)
    qed
  qed
qed

section \<open>Classification of failures\<close>

lemma fetchData_returns_failure:
  assumes "newClansData_of env = Inl e"
  shows "fetchData_returns i env st =
         (catch_block e (st\<lparr>inFlight := take i (inFlight st) @ drop (Suc i) (inFlight st)\<rparr>))
           \<lparr>loading := False\<rparr>"
  by (simp add: fetchData_returns_def fetchData_settle_failure [OF assms])

lemma stop_branch:
  assumes "polling_invariant st"
  shows "error ((stopPolling (st\<lparr>inFlight := w, error := Some m\<rparr>))\<lparr>loading := False\<rparr>) = Some m"
    and "intervalRef ((stopPolling (st\<lparr>inFlight := w, error := Some m\<rparr>))\<lparr>loading := False\<rparr>) = None"
    and "timers ((stopPolling (st\<lparr>inFlight := w, error := Some m\<rparr>))\<lparr>loading := False\<rparr>) = []"
  using assms by (auto simp: polling_invariant_def stopPolling_def split: option.splits)

text \<open>
  The quota test is the first branch. When the message of a failure contains both
  \<^verbatim>\<open>quota\<close> and \<^verbatim>\<open>api key not valid\<close>, in any letter case, the call returns with the
  quota message as the error message, which is not the credential message, and it has called
  \<^verbatim>\<open>stopPolling\<close>: at that moment no interval is active and the handle is cleared. The
  quota message is still the error message after the render that follows.
\<close>

lemma quota_branch_first:
  assumes "sublist ''quota'' (toLowerCase m)"
    and "sublist ''api key not valid'' (toLowerCase m)"
    and "newClansData_of env = Inl (Error m)"
    and "reachable st" and "i < length (inFlight st)"
  shows "error (fetchData_returns i env st) = Some QUOTA_MESSAGE \<and>
         QUOTA_MESSAGE \<noteq> KEY_MESSAGE \<and>
         intervalRef (fetchData_returns i env st) = None \<and>
         timers (fetchData_returns i env st) = [] \<and>
         error (run_settles i env st) = Some QUOTA_MESSAGE"
proof -
  have inv: "polling_invariant st"
    using reachable_invariant [OF assms(4)] by simp
  have r: "fetchData_returns i env st =
      (stopPolling (st\<lparr>inFlight := take i (inFlight st) @ drop (Suc i) (inFlight st),
                        error := Some QUOTA_MESSAGE\<rparr>))\<lparr>loading := False\<rparr>"
    by (simp add: fetchData_returns_failure [OF assms(3)] catch_block_quota [OF assms(1)])
  have "QUOTA_MESSAGE \<noteq> KEY_MESSAGE"
    by (simp add: QUOTA_MESSAGE_def KEY_MESSAGE_def)
  moreover have "error (run_settles i env st) = error (fetchData_returns i env st)"
    using assms(5) by (simp add: run_settles_def render_keeps)
  ultimately show ?thesis
    unfolding r using stop_branch [OF inv] by simp
qed

lemma reachable_ticking_AB: "reachable ticking_AB"
  unfolding ticking_AB_def published_AB_def by (intro reachable.intros)

text \<open>
  Claim C6, as stated, fails on a message that reports the invalid key and also contains
  \<^verbatim>\<open>quota\<close>: the quota branch comes first, and the error message is the quota message.
\<close>

theorem credential_failure_with_quota_counterexample:
  "sublist ''api key not valid'' (toLowerCase both_text) \<and>
   newClansData_of (env_throws both_text) = Inl (Error both_text) \<and>
   error (run_settles 0 (env_throws both_text) ticking_AB) = Some QUOTA_MESSAGE \<and>
   error (run_settles 0 (env_throws both_text) ticking_AB) \<noteq> Some KEY_MESSAGE"
  by code_simp

text \<open>
  Claim C6, amended. When the message of a failure contains \<^verbatim>\<open>api key not valid\<close> and
  does not contain \<^verbatim>\<open>quota\<close>, in any letter case, the call returns with the credential
  message as the error message, and it has called \<^verbatim>\<open>stopPolling\<close>: when the call returns
  no interval is active and the handle is cleared. The credential message is still the error
  message after the render that follows.
\<close>

theorem credential_failure_sets_key_message:
  assumes "sublist ''api key not valid'' (toLowerCase m)"
    and "\<not> sublist ''quota'' (toLowerCase m)"
    and "newClansData_of env = Inl (Error m)"
    and "reachable st" and "i < length (inFlight st)"
  shows "error (fetchData_returns i env st) = Some KEY_MESSAGE \<and>
         intervalRef (fetchData_returns i env st) = None \<and>
         timers (fetchData_returns i env st) = [] \<and>
         error (run_settles i env st) = Some KEY_MESSAGE"
proof -
  have inv: "polling_invariant st"
    using reachable_invariant [OF assms(4)] by simp
  have r: "fetchData_returns i env st =
      (stopPolling (st\<lparr>inFlight := take i (inFlight st) @ drop (Suc i) (inFlight st),
                        error := Some KEY_MESSAGE\<rparr>))\<lparr>loading := False\<rparr>"
    by (simp add: fetchData_returns_failure [OF assms(3)] catch_block_key [OF assms(2,1)])
  have "error (run_settles i env st) = error (fetchData_returns i env st)"
    using assms(5) by (simp add: run_settles_def render_keeps)
  then show ?thesis
    unfolding r using stop_branch [OF inv] by simp
qed

theorem credential_failure_sets_key_message_witness:
  "sublist ''api key not valid'' (toLowerCase key_text) \<and>
   \<not> sublist ''quota'' (toLowerCase key_text) \<and>
   newClansData_of (env_throws key_text) = Inl (Error key_text) \<and>
   reachable ticking_AB \<and> 0 < length (inFlight ticking_AB) \<and>
   intervalRef ticking_AB = Some 1 \<and> timers ticking_AB = [(1, None)] \<and>
   error (fetchData_returns 0 (env_throws key_text) ticking_AB) = Some KEY_MESSAGE \<and>
   intervalRef (fetchData_returns 0 (env_throws key_text) ticking_AB) = None \<and>
   timers (fetchData_returns 0 (env_throws key_text) ticking_AB) = []"
proof -
  have h: "sublist ''api key not valid'' (toLowerCase key_text)"
      "\<not> sublist ''quota'' (toLowerCase key_text)"
    by code_simp+
  have fails: "newClansData_of (env_throws key_text) = Inl (Error key_text)"
    by (simp add: newClansData_of_def env_throws_def page_def)
  have waiting: "0 < length (inFlight ticking_AB)"
    by (simp add: ticking_AB_inFlight)
  have before: "intervalRef ticking_AB = Some 1" "timers ticking_AB = [(1, None)]"
    by code_simp+
  show ?thesis
    using credential_failure_sets_key_message [OF h fails reachable_ticking_AB waiting]
      h fails reachable_ticking_AB waiting before
    by simp
qed

section \<open>Successful runs\<close>

lemma fold_Map_set_distinct:
  "distinct (map fst (acc @ es)) \<Longrightarrow> fold (\<lambda>(k, v) m. Map_set m k v) es acc = acc @ es"
proof (induction es arbitrary: acc)
  case Nil
  show ?case by simp
next
  case (Cons e es)
  obtain k v where e: "e = (k, v)" by (cases e)
  from Cons.prems have "\<not> Map_has acc k"
    by (auto simp: e Map_has_def)
  then have "Map_set acc k v = acc @ [(k, v)]"
    by (rule Map_set_fresh)
  moreover have "distinct (map fst ((acc @ [(k, v)]) @ es))"
    using Cons.prems by (simp add: e)
  ultimately show ?case
    using Cons.IH [of "acc @ [(k, v)]"] by (simp add: e)
qed

lemma Map_new_distinct: "distinct (map fst es) \<Longrightarrow> Map_new es = es"
  using fold_Map_set_distinct [of "[]" es] by (simp add: Map_new_def)

lemma Map_new_uniqueClans:
  "Map_new (map (\<lambda>c. (name c, c)) (uniqueClans_of xs)) = map (\<lambda>c. (name c, c)) (uniqueClans_of xs)"
  using uniqueClans_distinct [of xs] by (intro Map_new_distinct) (simp add: comp_def)

lemma map_of_by_name: "map_of (map (\<lambda>c. (name c, c)) xs) k = find (\<lambda>c. name c = k) xs"
  by (induction xs) auto

lemma find_via_filter: "find P xs = (case filter P xs of [] \<Rightarrow> None | x # _ \<Rightarrow> Some x)"
  by (induction xs) auto

lemma find_uniqueClans:
  "find (\<lambda>c. name c = k) (uniqueClans_of xs) = find (\<lambda>c. name c = k) xs"
  by (simp add: find_via_filter [of _ "uniqueClans_of xs"] uniqueClans_of_filter split: option.splits)

text \<open>
  A run that succeeds has these effects, whatever else is waiting. The previous-snapshot
  reference becomes the list of the de-duplicated records of this extraction, each under its
  name, whatever the reference was before. The published record list becomes the ranked list
  of the tracked records, computed against the old reference. The time of completion is
  recorded. The error message is cleared when the closure that runs had captured one.
\<close>

lemma success_in_any_interleaving:
  assumes "i < length (inFlight st)" and "newClansData_of env = Inr newClansData"
  shows "previousClansMap (run_settles i env st) =
           map (\<lambda>c. (name c, c)) (uniqueClans_of newClansData)"
    and "clans (run_settles i env st) =
           sortedData_of (trackedClans_of (previousClansMap st) (uniqueClans_of newClansData))"
    and "lastUpdated (run_settles i env st) = Some (new_Date env)"
    and "error (run_settles i env st) = (if truthy (inFlight st ! i) then None else error st)"
  by (simp_all add: run_settles_published [OF assms(1)] fetchData_settle_success [OF assms(2)]
      Map_new_uniqueClans)

text \<open>
  In every state that the component reaches with runs that do not overlap, the closure of the
  call that returns has captured the current error message, so a run that succeeds clears
  it; and looking a key up in the new reference gives the first record of the extraction
  with that key.
\<close>

lemma success_without_overlap:
  assumes "sequential st" and "inFlight st \<noteq> []"
    and "newClansData_of env = Inr newClansData"
  shows "previousClansMap (run_settles 0 env st) =
           map (\<lambda>c. (name c, c)) (uniqueClans_of newClansData) \<and>
         (\<forall>k. Map_get (previousClansMap (run_settles 0 env st)) k =
              find (\<lambda>c. name c = k) newClansData) \<and>
         clans (run_settles 0 env st) =
           sortedData_of (trackedClans_of (previousClansMap st) (uniqueClans_of newClansData)) \<and>
         error (run_settles 0 env st) = None \<and>
         lastUpdated (run_settles 0 env st) = Some (new_Date env)"
proof -
  have c: "inFlight st ! 0 = error st"
    using sequential_inFlight [OF assms(1)] assms(2) by auto
  have ne: "error st \<noteq> Some []"
    using reachable_invariant [OF sequential_reachable [OF assms(1)]]
    by (simp add: polling_invariant_def)
  have len: "0 < length (inFlight st)"
    using assms(2) by simp
  have cleared: "(if truthy (error st) then None else error st) = None"
    using ne by (cases "error st") (simp_all add: truthy_def)
  let ?s = "fetchData_settle (error st) env st"
  have s: "previousClansMap ?s = map (\<lambda>c. (name c, c)) (uniqueClans_of newClansData)"
      "clans ?s = sortedData_of (trackedClans_of (previousClansMap st) (uniqueClans_of newClansData))"
      "error ?s = None" "lastUpdated ?s = Some (new_Date env)"
    using cleared by (simp_all add: fetchData_settle_success [OF assms(3)] Map_new_uniqueClans)
  have get: "Map_get (map (\<lambda>c. (name c, c)) (uniqueClans_of newClansData)) k =
             find (\<lambda>c. name c = k) newClansData" for k
    by (simp add: Map_get_def map_of_by_name find_uniqueClans)
  show ?thesis
    using run_settles_published [OF len, of env] by (simp add: c s get)
qed

text \<open>
  Claim C8 does not hold of every successful run. The interval fires while the first call
  still waits, the second call fails and sets an error message, and then the first call
  succeeds: it publishes its snapshot, replaces the reference and records the time, but its
  closure was made when \<^verbatim>\<open>error\<close> was \<^verbatim>\<open>null\<close>, so the test of line 179 fails and the
  error message stays.
\<close>

theorem overlapping_success_keeps_error:
  "reachable overlapped \<and>
   inFlight overlapped = [None, Some ''Failed to process data with AI: Service unavailable''] \<and>
   error overlapped = Some ''Failed to process data with AI: Service unavailable'' \<and>
   newClansData_of env_AB = Inr [A100, B90] \<and>
   clans (run_settles 0 env_AB overlapped) =
     [\<lparr>name = ''A'', score = 100, pointChange = Finite 0\<rparr>,
      \<lparr>name = ''B'', score = 90, pointChange = Finite 0\<rparr>] \<and>
   previousClansMap (run_settles 0 env_AB overlapped) = [(''A'', A100), (''B'', B90)] \<and>
   lastUpdated (run_settles 0 env_AB overlapped) = Some 1000 \<and>
   error (run_settles 0 env_AB overlapped) =
     Some ''Failed to process data with AI: Service unavailable''"
proof -
  have "reachable overlapped"
    unfolding overlapped_def by (intro reachable.intros)
  moreover have
   "inFlight overlapped = [None, Some ''Failed to process data with AI: Service unavailable''] \<and>
    error overlapped = Some ''Failed to process data with AI: Service unavailable'' \<and>
    newClansData_of env_AB = Inr [A100, B90] \<and>
    clans (run_settles 0 env_AB overlapped) =
      [\<lparr>name = ''A'', score = 100, pointChange = Finite 0\<rparr>,
       \<lparr>name = ''B'', score = 90, pointChange = Finite 0\<rparr>] \<and>
    previousClansMap (run_settles 0 env_AB overlapped) = [(''A'', A100), (''B'', B90)] \<and>
    lastUpdated (run_settles 0 env_AB overlapped) = Some 1000 \<and>
    error (run_settles 0 env_AB overlapped) =
      Some ''Failed to process data with AI: Service unavailable''"
    by code_simp
  ultimately show ?thesis by simp
qed

section \<open>Does a quota failure stop the polling?\<close>

text \<open>A stopped component stays as it is: no event changes its state.\<close>

lemma stopped_is_terminal:
  assumes "stopped st"
  shows "timer_fires h st = st" and "run_settles i env st = st"
  using assms by (simp_all add: stopped_def timer_fires_def run_settles_def)

text \<open>
  Claim C5 does not hold of the component. The first run after mounting fails with a quota
  message. The call sets the quota message and cancels interval 1; but \<^verbatim>\<open>error\<close> has
  changed, \<^verbatim>\<open>fetchData\<close> is a new closure (line 203), and the effect of lines 205 to 210
  runs again: a new call of \<^verbatim>\<open>fetchData\<close> is waiting and interval 2 is active.
\<close>

theorem quota_failure_restarts_polling:
  "sublist ''quota'' (toLowerCase quota_text) \<and>
   newClansData_of (env_throws quota_text) = Inl (Error quota_text) \<and>
   inFlight mount = [None] \<and> timers mount = [(1, None)] \<and>
   error (run_settles 0 (env_throws quota_text) mount) = Some QUOTA_MESSAGE \<and>
   inFlight (run_settles 0 (env_throws quota_text) mount) = [Some QUOTA_MESSAGE] \<and>
   timers (run_settles 0 (env_throws quota_text) mount) = [(2, Some QUOTA_MESSAGE)] \<and>
   intervalRef (run_settles 0 (env_throws quota_text) mount) = Some 2 \<and>
   \<not> stopped (run_settles 0 (env_throws quota_text) mount)"
  by code_simp

text \<open>
  Claim C10 holds in its first part only. A later run fails with a message that contains both
  \<^verbatim>\<open>quota\<close> and \<^verbatim>\<open>api key not valid\<close>. The quota message is set, not the credential
  one, and the call cancels interval 1. But polling is not stopped: \<^verbatim>\<open>error\<close> has changed,
  the effect runs again, a new call of \<^verbatim>\<open>fetchData\<close> is waiting and interval 2 is active.
\<close>

theorem quota_precedence_then_polling_restarts:
  "sublist ''quota'' (toLowerCase both_text) \<and>
   sublist ''api key not valid'' (toLowerCase both_text) \<and>
   newClansData_of (env_throws both_text) = Inl (Error both_text) \<and>
   inFlight ticking_AB = [None] \<and> timers ticking_AB = [(1, None)] \<and>
   error (run_settles 0 (env_throws both_text) ticking_AB) = Some QUOTA_MESSAGE \<and>
   QUOTA_MESSAGE \<noteq> KEY_MESSAGE \<and>
   timers (fetchData_returns 0 (env_throws both_text) ticking_AB) = [] \<and>
   inFlight (run_settles 0 (env_throws both_text) ticking_AB) = [Some QUOTA_MESSAGE] \<and>
   timers (run_settles 0 (env_throws both_text) ticking_AB) = [(2, Some QUOTA_MESSAGE)] \<and>
   intervalRef (run_settles 0 (env_throws both_text) ticking_AB) = Some 2 \<and>
   \<not> stopped (run_settles 0 (env_throws both_text) ticking_AB)"
  by code_simp

text \<open>
  In general, with runs that do not overlap: a quota failure leaves the component stopped
  exactly when the quota message was the error message already. So polling does stop when
  the run that the effect restarted fails in the same way.
\<close>

lemma quota_failure_restarts_unless_shown:
  assumes "sequential st" and "inFlight st \<noteq> []"
    and "newClansData_of env = Inl (Error m)" and "sublist ''quota'' (toLowerCase m)"
    and "error st \<noteq> Some QUOTA_MESSAGE"
  shows "\<not> stopped (run_settles 0 env st)"
proof -
  let ?r = "fetchData_returns 0 env st"
  have dep: "effectDep st = error st"
    using reachable_invariant [OF sequential_reachable [OF assms(1)]] by simp
  have "error ?r = Some QUOTA_MESSAGE"
    by (simp add: fetchData_returns_failure [OF assms(3)] catch_block_quota [OF assms(4)]
        stopPolling_keeps)
  moreover have "effectDep ?r = effectDep st"
    by (simp add: fetchData_returns_def fetchData_settle_keeps)
  ultimately have "render ?r = useEffect_body (stopPolling ?r)"
    using dep assms(5) by (simp add: render_def)
  then have "inFlight (run_settles 0 env st) \<noteq> []"
    using assms(2) by (simp add: run_settles_def useEffect_body_def fetchData_begin_def Let_def)
  then show ?thesis
    by (simp add: stopped_def)
qed

lemma quota_failure_stops_when_shown:
  assumes "sequential st" and "inFlight st \<noteq> []"
    and "newClansData_of env = Inl (Error m)" and "sublist ''quota'' (toLowerCase m)"
    and "error st = Some QUOTA_MESSAGE"
  shows "stopped (run_settles 0 env st)"
proof -
  let ?w = "take 0 (inFlight st) @ drop (Suc 0) (inFlight st)"
  let ?r = "fetchData_returns 0 env st"
  have inv: "polling_invariant st" "effectDep st = error st"
    using reachable_invariant [OF sequential_reachable [OF assms(1)]] by simp_all
  have one: "inFlight st = [error st]"
    using sequential_inFlight [OF assms(1)] assms(2) by simp
  have r: "?r = (stopPolling (st\<lparr>inFlight := ?w, error := Some QUOTA_MESSAGE\<rparr>))\<lparr>loading := False\<rparr>"
    by (simp add: fetchData_returns_failure [OF assms(3)] catch_block_quota [OF assms(4)])
  have "timers ?r = []" "error ?r = Some QUOTA_MESSAGE"
    unfolding r using stop_branch [OF inv(1)] by simp_all
  moreover have "inFlight ?r = []" "effectDep ?r = effectDep st"
    using one by (simp_all add: fetchData_returns_def fetchData_settle_keeps)
  ultimately have "render ?r = ?r" "stopped ?r"
    using inv(2) assms(5) by (simp_all add: render_unchanged stopped_def)
  then show ?thesis
    using assms(2) by (simp add: run_settles_def)
qed

lemma second_quota_failure_stops:
  "stopped (run_settles 0 (env_throws quota_text) (run_settles 0 (env_throws quota_text) mount))"
  by code_simp

end
